theory Spec2Isabelle
  imports Complex_Main "HOL-Library.AList"
begin

section \<open>Python values, dictionaries and exceptions\<close>

text \<open>
  A Python \<open>dict\<close> with string keys is an association list in insertion order. A
  well-formed dictionary has no key twice (\<open>wf_dict\<close>); \<open>d[k] = v\<close> replaces the
  value in place when \<open>k\<close> is present and appends the pair otherwise, which is
  \<open>AList.update\<close>.
\<close>

type_synonym 'v dict = "(string \<times> 'v) list"

datatype py_error =
    KeyError string
  | TypeError
  | AttributeError string
  | ImportError
  | ZeroDivisionError
  | OverflowError
  | RuntimeError
  | NotImplementedError

definition wf_dict :: "'v dict \<Rightarrow> bool" where
  "wf_dict d = distinct (map fst d)"

definition getitem :: "'v dict \<Rightarrow> string \<Rightarrow> py_error + 'v" where
  "getitem d k = (case map_of d k of None \<Rightarrow> Inl (KeyError k) | Some v \<Rightarrow> Inr v)"

definition setitem :: "'v dict \<Rightarrow> string \<Rightarrow> 'v \<Rightarrow> 'v dict" where
  "setitem d k v = AList.update k v d"

definition bind_result :: "py_error + 'a \<Rightarrow> ('a \<Rightarrow> py_error + 'b) \<Rightarrow> py_error + 'b" where
  "bind_result r f = (case r of Inl e \<Rightarrow> Inl e | Inr x \<Rightarrow> f x)"

section \<open>Configuration trees\<close>

text \<open>
  A value stored in a \<open>Config\<close> is either a nested \<open>Config\<close> section or a leaf.
  \<open>Scalar\<close> stands for every leaf (number, string, list, tuple, None): for all of
  them \<open>isinstance(v, Config)\<close> is false, \<open>v[k]\<close> and \<open>v[k] = x\<close> with a string key
  raise \<open>TypeError\<close>, and \<open>v.keys()\<close> raises \<open>AttributeError\<close>. A configuration is
  a tree: \<open>get_config\<close> builds every section as a node of its own, so no two sections
  are the same object, and an in-place write to a section is a write along its path.
  Configurations in which two keys hold the same object are the subject of the section
  on shared sections below, where the method is modelled on a store of objects.
\<close>

datatype cval = Scalar int | Cfg "(string \<times> cval) list"

fun isinstance_Config :: "cval \<Rightarrow> bool" where
  "isinstance_Config (Cfg d) = True"
| "isinstance_Config (Scalar n) = False"

text \<open>\<open>config.NAME\<close>: \<open>Config.__getattr__\<close> raises \<open>AttributeError\<close> for a missing key.\<close>

definition getattr :: "cval dict \<Rightarrow> string \<Rightarrow> py_error + cval" where
  "getattr config name =
     (case map_of config name of None \<Rightarrow> Inl (AttributeError name) | Some v \<Rightarrow> Inr v)"

fun cval_keys :: "cval \<Rightarrow> py_error + string list" where
  "cval_keys (Cfg d) = Inr (map fst d)"
| "cval_keys (Scalar n) = Inl (AttributeError ''keys'')"

fun cval_getitem :: "cval \<Rightarrow> string \<Rightarrow> py_error + cval" where
  "cval_getitem (Cfg d) k = getitem d k"
| "cval_getitem (Scalar n) k = Inl TypeError"

fun cval_setitem :: "cval \<Rightarrow> string \<Rightarrow> cval \<Rightarrow> py_error + cval" where
  "cval_setitem (Cfg d) k v = Inr (Cfg (setitem d k v))"
| "cval_setitem (Scalar n) k v = Inl TypeError"

section \<open>\<open>overwrite_simulator_config\<close>\<close>

text \<open>
  The statement \<open>config.SIMULATOR[k][inner_k] = config.PHYSICS_SIMULATOR[k][inner_k]\<close>.
  Python evaluates the right-hand side first, then the target \<open>config.SIMULATOR[k]\<close>,
  then stores into it. The store mutates the section object in place; in the tree it is
  the write of the new section back along the path \<open>SIMULATOR\<close>, \<open>k\<close>.
\<close>

definition assign_inner :: "string \<Rightarrow> string \<Rightarrow> cval dict \<Rightarrow> py_error + cval dict" where
  "assign_inner k inner_k config =
     bind_result (getattr config ''PHYSICS_SIMULATOR'') (\<lambda>phys.
     bind_result (cval_getitem phys k) (\<lambda>phys_k.
     bind_result (cval_getitem phys_k inner_k) (\<lambda>v.
     bind_result (getattr config ''SIMULATOR'') (\<lambda>sim.
     bind_result (cval_getitem sim k) (\<lambda>sim_k.
     bind_result (cval_setitem sim_k inner_k v) (\<lambda>sim_k'.
     bind_result (cval_setitem sim k sim_k') (\<lambda>sim'.
     Inr (setitem config ''SIMULATOR'' sim'))))))))"

text \<open>The statement \<open>config.SIMULATOR[k] = config.PHYSICS_SIMULATOR[k]\<close>.\<close>

definition assign_outer :: "string \<Rightarrow> cval dict \<Rightarrow> py_error + cval dict" where
  "assign_outer k config =
     bind_result (getattr config ''PHYSICS_SIMULATOR'') (\<lambda>phys.
     bind_result (cval_getitem phys k) (\<lambda>v.
     bind_result (getattr config ''SIMULATOR'') (\<lambda>sim.
     bind_result (cval_setitem sim k v) (\<lambda>sim'.
     Inr (setitem config ''SIMULATOR'' sim')))))"

text \<open>
  A call either returns or raises; in both cases the configuration object is left in
  some state, which the caller still holds. A loop stops at the first statement that
  raises and keeps the writes made so far.
\<close>

datatype outcome = Returned | Raised py_error

fun inner_loop :: "string \<Rightarrow> string list \<Rightarrow> cval dict \<Rightarrow> outcome \<times> cval dict" where
  "inner_loop k [] config = (Returned, config)"
| "inner_loop k (inner_k # rest) config =
     (case assign_inner k inner_k config of
        Inl e \<Rightarrow> (Raised e, config)
      | Inr config' \<Rightarrow> inner_loop k rest config')"

text \<open>The body of the outer loop for one key \<open>k\<close> (source lines 38 to 42).\<close>

definition outer_body :: "string \<Rightarrow> cval dict \<Rightarrow> outcome \<times> cval dict" where
  "outer_body k config =
     (case bind_result (getattr config ''PHYSICS_SIMULATOR'') (\<lambda>phys. cval_getitem phys k) of
        Inl e \<Rightarrow> (Raised e, config)
      | Inr phys_k \<Rightarrow>
          if isinstance_Config phys_k then
            (case bind_result (getattr config ''PHYSICS_SIMULATOR'') (\<lambda>phys.
                  bind_result (cval_getitem phys k) cval_keys) of
               Inl e \<Rightarrow> (Raised e, config)
             | Inr inner_keys \<Rightarrow> inner_loop k inner_keys config)
          else
            (case assign_outer k config of
               Inl e \<Rightarrow> (Raised e, config)
             | Inr config' \<Rightarrow> (Returned, config')))"

fun outer_loop :: "string list \<Rightarrow> cval dict \<Rightarrow> outcome \<times> cval dict" where
  "outer_loop [] config = (Returned, config)"
| "outer_loop (k # rest) config =
     (case outer_body k config of
        (Raised e, config') \<Rightarrow> (Raised e, config')
      | (Returned, config') \<Rightarrow> outer_loop rest config')"

text \<open>
  The \<open>for\<close> loop of the method (source lines 37 to 42). The keys are those of
  \<open>config.PHYSICS_SIMULATOR\<close> when the loop starts; the loop never writes to that
  section.
\<close>

definition merge_physics :: "cval dict \<Rightarrow> outcome \<times> cval dict" where
  "merge_physics config =
     (case bind_result (getattr config ''PHYSICS_SIMULATOR'') cval_keys of
        Inl e \<Rightarrow> (Raised e, config)
      | Inr ks \<Rightarrow> outer_loop ks config)"

text \<open>
  The whole method: the loop, then the \<open>try\<close> block. \<open>importable\<close> says whether the
  four imports succeed; when one fails the handler prints a line and raises the
  \<open>ImportError\<close> again. The result holds how the call ended, the state of the
  configuration object afterwards and the lines printed.
\<close>

record overwrite_result =
  ended :: outcome
  config_after :: "cval dict"
  printed :: "string list"

definition overwrite_simulator_config :: "bool \<Rightarrow> cval dict \<Rightarrow> overwrite_result" where
  "overwrite_simulator_config importable config =
     (case merge_physics config of
        (Raised e, config') \<Rightarrow> \<lparr>ended = Raised e, config_after = config', printed = []\<rparr>
      | (Returned, config') \<Rightarrow>
          if importable then \<lparr>ended = Returned, config_after = config', printed = []\<rparr>
          else \<lparr>ended = Raised ImportError, config_after = config',
                 printed = [''Import HSIM failed'']\<rparr>)"

subsection \<open>Observations on a configuration\<close>


definition SIMULATOR :: "cval dict \<Rightarrow> cval option" where
  "SIMULATOR config = map_of config ''SIMULATOR''"

definition PHYSICS_SIMULATOR :: "cval dict \<Rightarrow> cval option" where
  "PHYSICS_SIMULATOR config = map_of config ''PHYSICS_SIMULATOR''"



section \<open>Configurations with shared sections\<close>

text \<open>
  In the interpreter a \<open>Config\<close> is an object, and two keys can hold the same object.
  Then a store into the section under one key is seen under the other, which the tree
  above cannot show. Here every address holds the dictionary of one \<open>Config\<close> object,
  and a value is a leaf or a reference to such an object. The method is modelled a
  second time on this store, statement by statement as above.
\<close>

type_synonym addr = nat

datatype pval = Leaf int | Ref addr

type_synonym heap = "addr \<Rightarrow> pval dict"

fun isinstance_Config_at :: "pval \<Rightarrow> bool" where
  "isinstance_Config_at (Ref a) = True"
| "isinstance_Config_at (Leaf n) = False"

definition getattr_at :: "heap \<Rightarrow> addr \<Rightarrow> string \<Rightarrow> py_error + pval" where
  "getattr_at h config name =
     (case map_of (h config) name of None \<Rightarrow> Inl (AttributeError name) | Some v \<Rightarrow> Inr v)"

text \<open>\<open>v.keys()\<close> is a view on the dictionary of the object \<open>v\<close>, not a copy of its keys.\<close>

fun keys_view :: "pval \<Rightarrow> py_error + addr" where
  "keys_view (Ref a) = Inr a"
| "keys_view (Leaf n) = Inl (AttributeError ''keys'')"

fun getitem_at :: "heap \<Rightarrow> pval \<Rightarrow> string \<Rightarrow> py_error + pval" where
  "getitem_at h (Ref a) k = getitem (h a) k"
| "getitem_at h (Leaf n) k = Inl TypeError"

text \<open>\<open>v[k] = x\<close> changes the dictionary of the object \<open>v\<close>, for everyone who holds it.\<close>

fun setitem_at :: "heap \<Rightarrow> pval \<Rightarrow> string \<Rightarrow> pval \<Rightarrow> py_error + heap" where
  "setitem_at h (Ref a) k x = Inr (h(a := setitem (h a) k x))"
| "setitem_at h (Leaf n) k x = Inl TypeError"

definition assign_inner_at :: "addr \<Rightarrow> string \<Rightarrow> string \<Rightarrow> heap \<Rightarrow> py_error + heap" where
  "assign_inner_at config k inner_k h =
     bind_result (getattr_at h config ''PHYSICS_SIMULATOR'') (\<lambda>phys.
     bind_result (getitem_at h phys k) (\<lambda>phys_k.
     bind_result (getitem_at h phys_k inner_k) (\<lambda>v.
     bind_result (getattr_at h config ''SIMULATOR'') (\<lambda>sim.
     bind_result (getitem_at h sim k) (\<lambda>sim_k.
     setitem_at h sim_k inner_k v)))))"

definition assign_outer_at :: "addr \<Rightarrow> string \<Rightarrow> heap \<Rightarrow> py_error + heap" where
  "assign_outer_at config k h =
     bind_result (getattr_at h config ''PHYSICS_SIMULATOR'') (\<lambda>phys.
     bind_result (getitem_at h phys k) (\<lambda>v.
     bind_result (getattr_at h config ''SIMULATOR'') (\<lambda>sim.
     setitem_at h sim k v)))"

text \<open>
  A \<open>for\<close> loop over a keys view of the dictionary at \<open>b\<close>. Each time the loop asks for
  the next key the iterator compares the size of the dictionary with its size \<open>n\<close> at
  the start of the loop and raises \<open>RuntimeError\<close> when they differ, also when no key is
  left. The method never deletes a key and a store to a present key keeps its place, so
  as long as the size is \<open>n\<close> the keys are those at the start, in their order.
\<close>

fun inner_loop_at ::
  "addr \<Rightarrow> string \<Rightarrow> addr \<Rightarrow> nat \<Rightarrow> string list \<Rightarrow> heap \<Rightarrow> outcome \<times> heap" where
  "inner_loop_at config k b n [] h =
     (if length (h b) = n then (Returned, h) else (Raised RuntimeError, h))"
| "inner_loop_at config k b n (inner_k # rest) h =
     (if length (h b) = n then
        (case assign_inner_at config k inner_k h of
           Inl e \<Rightarrow> (Raised e, h)
         | Inr h' \<Rightarrow> inner_loop_at config k b n rest h')
      else (Raised RuntimeError, h))"

definition outer_body_at :: "addr \<Rightarrow> string \<Rightarrow> heap \<Rightarrow> outcome \<times> heap" where
  "outer_body_at config k h =
     (case bind_result (getattr_at h config ''PHYSICS_SIMULATOR'') (\<lambda>phys. getitem_at h phys k) of
        Inl e \<Rightarrow> (Raised e, h)
      | Inr phys_k \<Rightarrow>
          if isinstance_Config_at phys_k then
            (case bind_result (getattr_at h config ''PHYSICS_SIMULATOR'') (\<lambda>phys.
                  bind_result (getitem_at h phys k) keys_view) of
               Inl e \<Rightarrow> (Raised e, h)
             | Inr b \<Rightarrow> inner_loop_at config k b (length (h b)) (map fst (h b)) h)
          else
            (case assign_outer_at config k h of
               Inl e \<Rightarrow> (Raised e, h)
             | Inr h' \<Rightarrow> (Returned, h')))"

fun outer_loop_at :: "addr \<Rightarrow> addr \<Rightarrow> nat \<Rightarrow> string list \<Rightarrow> heap \<Rightarrow> outcome \<times> heap" where
  "outer_loop_at config p n [] h =
     (if length (h p) = n then (Returned, h) else (Raised RuntimeError, h))"
| "outer_loop_at config p n (k # rest) h =
     (if length (h p) = n then
        (case outer_body_at config k h of
           (Raised e, h') \<Rightarrow> (Raised e, h')
         | (Returned, h') \<Rightarrow> outer_loop_at config p n rest h')
      else (Raised RuntimeError, h))"

definition merge_physics_at :: "addr \<Rightarrow> heap \<Rightarrow> outcome \<times> heap" where
  "merge_physics_at config h =
     (case bind_result (getattr_at h config ''PHYSICS_SIMULATOR'') keys_view of
        Inl e \<Rightarrow> (Raised e, h)
      | Inr p \<Rightarrow> outer_loop_at config p (length (h p)) (map fst (h p)) h)"

record overwrite_result_at =
  ended_at :: outcome
  heap_after :: heap
  printed_at :: "string list"

definition overwrite_simulator_config_at :: "bool \<Rightarrow> addr \<Rightarrow> heap \<Rightarrow> overwrite_result_at" where
  "overwrite_simulator_config_at importable config h =
     (case merge_physics_at config h of
        (Raised e, h') \<Rightarrow> \<lparr>ended_at = Raised e, heap_after = h', printed_at = []\<rparr>
      | (Returned, h') \<Rightarrow>
          if importable then \<lparr>ended_at = Returned, heap_after = h', printed_at = []\<rparr>
          else \<lparr>ended_at = Raised ImportError, heap_after = h',
                 printed_at = [''Import HSIM failed'']\<rparr>)"

subsection \<open>Which objects a configuration is made of\<close>









section \<open>Metrics\<close>

text \<open>
  The arithmetic of the interpreter is a parameter of the model, so that what is proved
  holds for the floating-point numbers the code runs on, with their rounding, their
  infinities and their errors. \<open>'v\<close> is the type of a metric value as an episode holds
  it (a float or an int), \<open>'f\<close> the type of a float.
  \<^item> \<open>float_zero\<close> is \<open>float()\<close>, the default of the \<open>defaultdict(float)\<close>;
  \<^item> \<open>float_add a v\<close> is \<open>a + v\<close> for a float \<open>a\<close>: it rounds, it may give \<open>inf\<close> or
    \<open>nan\<close>, and it raises \<open>OverflowError\<close> for an int \<open>v\<close> too large for a float;
  \<^item> \<open>float_div a n\<close> is \<open>a / n\<close> for a float \<open>a\<close> and a length \<open>n\<close> other than 0.
  Nothing is assumed about the three.
\<close>

record ('v, 'f) arith =
  float_zero :: 'f
  float_add :: "'f \<Rightarrow> 'v \<Rightarrow> py_error + 'f"
  float_div :: "'f \<Rightarrow> nat \<Rightarrow> 'f"

text \<open>\<open>v / n\<close> on a float raises \<open>ZeroDivisionError\<close> for \<open>n = 0\<close>.\<close>

definition truediv :: "('v, 'f) arith \<Rightarrow> 'f \<Rightarrow> nat \<Rightarrow> py_error + 'f" where
  "truediv ar v n = (if n = 0 then Inl ZeroDivisionError else Inr (float_div ar v n))"

text \<open>\<open>agg_metrics[m]\<close> on a \<open>defaultdict(float)\<close>: a missing key reads as \<open>0.0\<close>.\<close>

definition defaultdict_get :: "('v, 'f) arith \<Rightarrow> 'f dict \<Rightarrow> string \<Rightarrow> 'f" where
  "defaultdict_get ar agg m = (case map_of agg m of None \<Rightarrow> float_zero ar | Some x \<Rightarrow> x)"

text \<open>
  The inner loop \<open>for m, v in metrics.items(): agg_metrics[m] += v\<close>; an addition that
  raises ends the call.
\<close>

fun accumulate_episode :: "('v, 'f) arith \<Rightarrow> 'v dict \<Rightarrow> 'f dict \<Rightarrow> py_error + 'f dict" where
  "accumulate_episode ar [] agg = Inr agg"
| "accumulate_episode ar ((m, v) # rest) agg =
     (case float_add ar (defaultdict_get ar agg m) v of
        Inl e \<Rightarrow> Inl e
      | Inr s \<Rightarrow> accumulate_episode ar rest (setitem agg m s))"

text \<open>The outer loop \<open>for _, metrics in dict_of_metrics.items()\<close>.\<close>

fun accumulate_all :: "('v, 'f) arith \<Rightarrow> ('v dict) dict \<Rightarrow> 'f dict \<Rightarrow> py_error + 'f dict" where
  "accumulate_all ar [] agg = Inr agg"
| "accumulate_all ar ((episode, metrics) # rest) agg =
     (case accumulate_episode ar metrics agg of
        Inl e \<Rightarrow> Inl e
      | Inr agg' \<Rightarrow> accumulate_all ar rest agg')"

text \<open>The comprehension \<open>{k: v/len(dict_of_metrics) for k, v in agg_metrics.items()}\<close>.\<close>

fun avg_comprehension :: "('v, 'f) arith \<Rightarrow> nat \<Rightarrow> 'f dict \<Rightarrow> 'f dict \<Rightarrow> py_error + 'f dict" where
  "avg_comprehension ar n [] acc = Inr acc"
| "avg_comprehension ar n ((k, v) # rest) acc =
     (case truediv ar v n of
        Inl e \<Rightarrow> Inl e
      | Inr q \<Rightarrow> avg_comprehension ar n rest (setitem acc k q))"

definition compute_avg_metrics :: "('v, 'f) arith \<Rightarrow> ('v dict) dict \<Rightarrow> py_error + 'f dict" where
  "compute_avg_metrics ar dict_of_metrics =
     bind_result (accumulate_all ar dict_of_metrics []) (\<lambda>agg_metrics.
       avg_comprehension ar (length dict_of_metrics) agg_metrics [])"

text \<open>
  \<open>extract_metrics\<close>: the comprehension over \<open>metric_names\<close> for one episode, where
  \<open>episode_metrics[metric_name]\<close> raises \<open>KeyError\<close> for a missing name, and the loop
  over the episodes.
\<close>

fun names_comprehension :: "'v dict \<Rightarrow> string list \<Rightarrow> 'v dict \<Rightarrow> py_error + 'v dict" where
  "names_comprehension episode_metrics [] acc = Inr acc"
| "names_comprehension episode_metrics (metric_name # rest) acc =
     (case getitem episode_metrics metric_name of
        Inl e \<Rightarrow> Inl e
      | Inr v \<Rightarrow> names_comprehension episode_metrics rest (setitem acc metric_name v))"

fun extract_loop ::
  "('v dict) dict \<Rightarrow> string list \<Rightarrow> ('v dict) dict \<Rightarrow> py_error + ('v dict) dict" where
  "extract_loop [] metric_names new_dict_of_metrics = Inr new_dict_of_metrics"
| "extract_loop ((episode_identifier, episode_metrics) # rest) metric_names new_dict_of_metrics =
     (case names_comprehension episode_metrics metric_names [] of
        Inl e \<Rightarrow> Inl e
      | Inr d \<Rightarrow>
          extract_loop rest metric_names (setitem new_dict_of_metrics episode_identifier d))"

definition extract_metrics :: "('v dict) dict \<Rightarrow> string list \<Rightarrow> py_error + ('v dict) dict" where
  "extract_metrics dict_of_metrics metric_names = extract_loop dict_of_metrics metric_names []"

subsection \<open>What the specification says about the metrics\<close>

text \<open>A metrics collection is well formed when it and each of its episodes is a dictionary.\<close>

definition wf_metrics :: "('v dict) dict \<Rightarrow> bool" where
  "wf_metrics M = (wf_dict M \<and> list_all (\<lambda>em. wf_dict (snd em)) M)"

text \<open>The values \<open>M[e][k]\<close> over the episodes \<open>e\<close> that contain the key \<open>k\<close>.\<close>

definition values_of :: "('v dict) dict \<Rightarrow> string \<Rightarrow> 'v list" where
  "values_of M k = List.map_filter (\<lambda>em. map_of (snd em) k) M"

text \<open>
  The sum of a list of metric values as the code forms it: added one by one, in the
  order of the list, to a running float.
\<close>

fun running_sum :: "('v, 'f) arith \<Rightarrow> 'f \<Rightarrow> 'v list \<Rightarrow> py_error + 'f" where
  "running_sum ar a [] = Inr a"
| "running_sum ar a (v # vs) =
     (case float_add ar a v of Inl e \<Rightarrow> Inl e | Inr s \<Rightarrow> running_sum ar s vs)"

text \<open>
  The arithmetic mean of \<open>M[e][k]\<close> over exactly the episodes that contain \<open>k\<close>: their
  sum from \<open>0.0\<close>, divided by their number.
\<close>

definition mean_over_containing ::
  "('v, 'f) arith \<Rightarrow> ('v dict) dict \<Rightarrow> string \<Rightarrow> py_error + 'f" where
  "mean_over_containing ar M k =
     bind_result (running_sum ar (float_zero ar) (values_of M k)) (\<lambda>s.
       truediv ar s (length (values_of M k)))"

text \<open>The metric names that appear in at least one episode.\<close>

definition metric_names_of :: "('v dict) dict \<Rightarrow> string set" where
  "metric_names_of M = set (concat (map (\<lambda>em. map fst (snd em)) M))"

text \<open>What the specification asks of one extracted episode.\<close>

definition narrowed :: "string list \<Rightarrow> string \<times> 'v dict \<Rightarrow> string \<times> 'v dict \<Rightarrow> bool" where
  "narrowed names em em' =
     (fst em' = fst em \<and> wf_dict (snd em') \<and> set (map fst (snd em')) = set names \<and>
      list_all (\<lambda>n. map_of (snd em') n = map_of (snd em) n \<and> map_of (snd em) n \<noteq> None) names)"

text \<open>Some episode lacks one of the requested names.\<close>

definition some_name_missing :: "('v dict) dict \<Rightarrow> string list \<Rightarrow> bool" where
  "some_name_missing M names =
     list_ex (\<lambda>em. list_ex (\<lambda>n. map_of (snd em) n = None) names) M"

section \<open>The abstract operations\<close>

record HabitatSimEvaluator =
  config :: "cval dict"
  input_type :: string
  model_path :: string
  enable_physics :: bool

text \<open>
  \<open>__init__\<close> stores its arguments; \<open>get_config\<close> is the configuration loader of
  the habitat library, taken as a parameter.
\<close>

definition init ::
  "(string \<Rightarrow> py_error + cval dict) \<Rightarrow> string \<Rightarrow> string \<Rightarrow> string \<Rightarrow> bool \<Rightarrow>
     py_error + HabitatSimEvaluator" where
  "init get_config config_paths input_type' model_path' enable_physics' =
     bind_result (get_config config_paths) (\<lambda>c.
       Inr \<lparr>config = c, input_type = input_type', model_path = model_path',
            enable_physics = enable_physics'\<rparr>)"

text \<open>
  The three methods the subclasses supply. On the base class each body is
  \<open>raise NotImplementedError\<close>. \<open>args\<close> and \<open>kwargs\<close> are the extra positional
  and keyword arguments.
\<close>

definition generate_video ::
  "HabitatSimEvaluator \<Rightarrow> string \<Rightarrow> string \<Rightarrow> int \<Rightarrow> cval list \<Rightarrow> cval dict \<Rightarrow> py_error + unit" where
  "generate_video self episode_id scene_id agent_seed args kwargs = Inl NotImplementedError"

definition generate_map ::
  "HabitatSimEvaluator \<Rightarrow> string \<Rightarrow> string \<Rightarrow> int \<Rightarrow> int \<Rightarrow> cval list \<Rightarrow> cval dict \<Rightarrow>
     py_error + int list list" where
  "generate_map self episode_id scene_id agent_seed map_height args kwargs =
     Inl NotImplementedError"

definition evaluate_and_get_maps ::
  "HabitatSimEvaluator \<Rightarrow> string \<Rightarrow> string \<Rightarrow> string \<Rightarrow> int \<Rightarrow> cval list \<Rightarrow> cval dict \<Rightarrow>
     py_error + (real dict) dict" where
  "evaluate_and_get_maps self episode_id_last scene_id_last log_dir map_height args kwargs =
     Inl NotImplementedError"

section \<open>Example inputs\<close>

text \<open>The configuration of the overlay example of the specification.\<close>

definition example_config :: "cval dict" where
  "example_config =
     [(''SIMULATOR'', Cfg [(''A'', Scalar 1), (''B'', Cfg [(''x'', Scalar 1), (''y'', Scalar 2)])]),
      (''PHYSICS_SIMULATOR'', Cfg [(''A'', Scalar 9), (''B'', Cfg [(''x'', Scalar 8)])])]"




text \<open>
  A store in which \<open>SIMULATOR['B']\<close> is the object \<open>PHYSICS_SIMULATOR\<close> itself, so
  that the merge adds a key to the dictionary the outer loop runs over.
\<close>

definition growing_heap :: heap where
  "growing_heap =
     (\<lambda>a. [])
       (0 := [(''SIMULATOR'', Ref 1), (''PHYSICS_SIMULATOR'', Ref 2)],
        1 := [(''B'', Ref 2)],
        2 := [(''B'', Ref 3)],
        3 := [(''x'', Leaf 8)])"

text \<open>The store of \<open>example_config\<close>, every section an object of its own.\<close>

definition example_heap :: heap where
  "example_heap =
     (\<lambda>a. [])
       (0 := [(''SIMULATOR'', Ref 1), (''PHYSICS_SIMULATOR'', Ref 2)],
        1 := [(''A'', Leaf 1), (''B'', Ref 3)],
        2 := [(''A'', Leaf 9), (''B'', Ref 4)],
        3 := [(''x'', Leaf 1), (''y'', Leaf 2)],
        4 := [(''x'', Leaf 8)])"


text \<open>
  An arithmetic to run the examples on: the exact one on real numbers. On the numbers of
  the examples below (small integers and their halves) float arithmetic is exact too.
\<close>

definition exact_arith :: "(real, real) arith" where
  "exact_arith =
     \<lparr>float_zero = 0, float_add = (\<lambda>a v. Inr (a + v)), float_div = (\<lambda>a n. a / real n)\<rparr>"

text \<open>
  An arithmetic with int metrics, where adding an int of absolute value \<open>2 ^ 1024\<close> or
  more to a float raises \<open>OverflowError\<close>.
\<close>

definition int_arith :: "(int, real) arith" where
  "int_arith =
     \<lparr>float_zero = 0,
      float_add = (\<lambda>a v. if \<bar>v\<bar> < 2 ^ 1024 then Inr (a + real_of_int v) else Inl OverflowError),
      float_div = (\<lambda>a n. a / real n)\<rparr>"

text \<open>Two episodes with the same metric names, in different orders.\<close>

definition example_metrics :: "(real dict) dict" where
  "example_metrics =
     [(''e1'', [(''a'', 2), (''b'', 3)]), (''e2'', [(''b'', 4), (''a'', 1)])]"

text \<open>Two episodes, the second without the metric \<open>a\<close>.\<close>

definition ragged_metrics :: "(real dict) dict" where
  "ragged_metrics = [(''e1'', [(''a'', 2)]), (''e2'', [])]"


section \<open>Dictionary facts\<close>

lemma bind_result_simps [simp]:
  "bind_result (Inl e) f = Inl e"
  "bind_result (Inr x) f = f x"
  by (simp_all add: bind_result_def)

lemma map_of_setitem: "map_of (setitem d k v) = (map_of d)(k \<mapsto> v)"
  by (simp add: setitem_def update_conv')

lemma keys_setitem: "set (map fst (setitem d k v)) = insert k (set (map fst d))"
  using dom_update [of k v d] by (simp add: setitem_def)

lemma wf_dict_setitem: "wf_dict d \<Longrightarrow> wf_dict (setitem d k v)"
  by (simp add: wf_dict_def setitem_def distinct_update)

lemma setitem_fresh: "k \<notin> set (map fst d) \<Longrightarrow> setitem d k v = d @ [(k, v)]"
  by (induction d) (auto simp: setitem_def)

lemma set_setitem_subset: "set (setitem d k v) \<subseteq> insert (k, v) (set d)"
  by (induction d) (auto simp: setitem_def)


section \<open>The overlay of the physics configuration\<close>

subsection \<open>One statement\<close>

lemma getattr_SIMULATOR:
  "getattr c ''SIMULATOR'' = (case SIMULATOR c of None \<Rightarrow> Inl (AttributeError ''SIMULATOR'') | Some v \<Rightarrow> Inr v)"
  by (simp add: getattr_def SIMULATOR_def)

lemma getattr_PHYSICS:
  "getattr c ''PHYSICS_SIMULATOR'' =
     (case PHYSICS_SIMULATOR c of None \<Rightarrow> Inl (AttributeError ''PHYSICS_SIMULATOR'') | Some v \<Rightarrow> Inr v)"
  by (simp add: getattr_def PHYSICS_SIMULATOR_def)

lemma SIMULATOR_store [simp]: "SIMULATOR (setitem c ''SIMULATOR'' v) = Some v"
  by (simp add: SIMULATOR_def map_of_setitem)

lemma PHYSICS_store [simp]: "PHYSICS_SIMULATOR (setitem c ''SIMULATOR'' v) = PHYSICS_SIMULATOR c"
  by (simp add: PHYSICS_SIMULATOR_def map_of_setitem)





















subsection \<open>A section that SIMULATOR lacks\<close>












subsection \<open>The claims about the overlay\<close>

text \<open>
  Claim C3: for a configuration whose \<open>SIMULATOR\<close> section is
  \<open>{A: 1, B: {x: 1, y: 2}}\<close> and whose \<open>PHYSICS_SIMULATOR\<close> section is
  \<open>{A: 9, B: {x: 8}}\<close>, the \<open>SIMULATOR\<close> section after the call is
  \<open>{A: 9, B: {x: 8, y: 2}}\<close>: the leaf is replaced, the nested section is merged
  field by field, and the field \<open>y\<close> that \<open>PHYSICS_SIMULATOR\<close> does not mention is
  kept. The configuration may hold any other sections.
\<close>

theorem overwrite_simulator_config_example:
  assumes "SIMULATOR cfg = Some (Cfg [(''A'', Scalar 1), (''B'', Cfg [(''x'', Scalar 1), (''y'', Scalar 2)])])"
      and "PHYSICS_SIMULATOR cfg = Some (Cfg [(''A'', Scalar 9), (''B'', Cfg [(''x'', Scalar 8)])])"
  shows "SIMULATOR (config_after (overwrite_simulator_config importable cfg)) =
           Some (Cfg [(''A'', Scalar 9), (''B'', Cfg [(''x'', Scalar 8), (''y'', Scalar 2)])]) \<and>
         ended (overwrite_simulator_config importable cfg) =
           (if importable then Returned else Raised ImportError)"
  using assms
  by (simp add: overwrite_simulator_config_def merge_physics_def outer_body_def assign_inner_def
      assign_outer_def getattr_SIMULATOR getattr_PHYSICS getitem_def
      setitem_def [of "[(''A'', _), _]"] setitem_def [of "[(''x'', _), _]"])

theorem overwrite_simulator_config_example_witness:
  "SIMULATOR example_config = Some (Cfg [(''A'', Scalar 1), (''B'', Cfg [(''x'', Scalar 1), (''y'', Scalar 2)])]) \<and>
   PHYSICS_SIMULATOR example_config = Some (Cfg [(''A'', Scalar 9), (''B'', Cfg [(''x'', Scalar 8)])]) \<and>
   SIMULATOR (config_after (overwrite_simulator_config True example_config)) =
     Some (Cfg [(''A'', Scalar 9), (''B'', Cfg [(''x'', Scalar 8), (''y'', Scalar 2)])]) \<and>
   ended (overwrite_simulator_config True example_config) = Returned"
proof -
  have s: "SIMULATOR example_config = Some (Cfg [(''A'', Scalar 1), (''B'', Cfg [(''x'', Scalar 1), (''y'', Scalar 2)])])"
    by (simp add: SIMULATOR_def example_config_def)
  have p: "PHYSICS_SIMULATOR example_config = Some (Cfg [(''A'', Scalar 9), (''B'', Cfg [(''x'', Scalar 8)])])"
    by (simp add: PHYSICS_SIMULATOR_def example_config_def)
  from overwrite_simulator_config_example [OF s p, of True] s p show ?thesis by simp
qed




section \<open>The overlay on a store with shared sections\<close>

subsection \<open>Where the stores go\<close>

















subsection \<open>A configuration whose sections are objects of their own\<close>









subsection \<open>The example of the specification on the store\<close>

text \<open>
  For the two sections of the example no assumption on sharing is needed: their four
  dictionaries differ, so they are four objects. The result agrees with the tree.
\<close>

lemma overwrite_simulator_config_at_example:
  assumes s: "getattr_at h c ''SIMULATOR'' = Inr (Ref s)"
      and hs: "h s = [(''A'', Leaf 1), (''B'', Ref sb)]"
      and hsb: "h sb = [(''x'', Leaf 1), (''y'', Leaf 2)]"
      and p: "getattr_at h c ''PHYSICS_SIMULATOR'' = Inr (Ref p)"
      and hp: "h p = [(''A'', Leaf 9), (''B'', Ref pb)]"
      and hpb: "h pb = [(''x'', Leaf 8)]"
  shows "heap_after (overwrite_simulator_config_at importable c h) s = [(''A'', Leaf 9), (''B'', Ref sb)] \<and>
         heap_after (overwrite_simulator_config_at importable c h) sb = [(''x'', Leaf 8), (''y'', Leaf 2)] \<and>
         ended_at (overwrite_simulator_config_at importable c h) =
           (if importable then Returned else Raised ImportError)"
proof -
  from hs hp have 1: "s \<noteq> p" by auto
  from hs hsb have 2: "s \<noteq> sb" by auto
  from hs hpb have 3: "s \<noteq> pb" by auto
  from hp hsb have 4: "p \<noteq> sb" by auto
  from hp hpb have 5: "p \<noteq> pb" by auto
  from hsb hpb have 6: "sb \<noteq> pb" by auto
  from s hs have 7: "c \<noteq> s" by (auto simp: getattr_at_def)
  from s hsb have 8: "c \<noteq> sb" by (auto simp: getattr_at_def)
  from s hp have 9: "c \<noteq> p" by (auto simp: getattr_at_def)
  from s hpb have 10: "c \<noteq> pb" by (auto simp: getattr_at_def)
  have gs: "getattr_at (h(a := d)) c name = getattr_at h c name" if "a \<noteq> c" for a d name
    using that by (simp add: getattr_at_def)
  show ?thesis
    using s p hs hsb hp hpb 1 2 3 4 5 6 7 8 9 10
    by (simp add: overwrite_simulator_config_at_def merge_physics_at_def
      outer_body_at_def assign_inner_at_def assign_outer_at_def gs getitem_def
      setitem_def)
qed

text \<open>A dictionary that grows while the loop runs over it ends the loop.\<close>

lemma growing_heap_changed_size:
  "ended_at (overwrite_simulator_config_at True 0 growing_heap) = Raised RuntimeError \<and>
   heap_after (overwrite_simulator_config_at True 0 growing_heap) 2 =
     [(''B'', Ref 3), (''x'', Leaf 8)]"
  by (simp add: growing_heap_def overwrite_simulator_config_at_def merge_physics_at_def
      outer_body_at_def assign_inner_at_def getattr_at_def getitem_def setitem_def)

lemma example_heap_agrees:
  "heap_after (overwrite_simulator_config_at True 0 example_heap) =
     example_heap (1 := [(''A'', Leaf 9), (''B'', Ref 3)], 3 := [(''x'', Leaf 8), (''y'', Leaf 2)])"
  by (simp add: example_heap_def overwrite_simulator_config_at_def merge_physics_at_def
      outer_body_at_def assign_inner_at_def assign_outer_at_def getattr_at_def getitem_def
      setitem_def fun_upd_twist)

subsection \<open>The claims about sharing and about failing imports\<close>







section \<open>Averaging the metrics\<close>

lemma accumulate_episode_lookup:
  "wf_dict ms \<Longrightarrow> accumulate_episode ar ms agg = Inr agg' \<Longrightarrow>
   (case map_of ms k of
      None \<Rightarrow> map_of agg' k = map_of agg k
    | Some v \<Rightarrow> (\<exists>s. float_add ar (defaultdict_get ar agg k) v = Inr s \<and> map_of agg' k = Some s))"
proof (induction ms arbitrary: agg)
  case Nil
  then show ?case by simp
next
  case (Cons p ms)
  obtain m v where p: "p = (m, v)" by (cases p)
  from Cons.prems(1) have wf: "wf_dict ms" and fresh: "map_of ms m = None"
    by (auto simp: p wf_dict_def map_of_eq_None_iff)
  from Cons.prems(2) obtain s where s: "float_add ar (defaultdict_get ar agg m) v = Inr s"
    and rest: "accumulate_episode ar ms (setitem agg m s) = Inr agg'"
    by (auto simp: p split: sum.splits)
  from Cons.IH [OF wf rest] fresh s show ?case
    by (auto simp: p map_of_setitem defaultdict_get_def split: option.splits)
qed

lemma accumulate_episode_wf:
  "wf_dict agg \<Longrightarrow> accumulate_episode ar ms agg = Inr agg' \<Longrightarrow> wf_dict agg'"
proof (induction ms arbitrary: agg)
  case Nil
  then show ?case by simp
next
  case (Cons p ms)
  obtain m v where p: "p = (m, v)" by (cases p)
  from Cons.prems(2) obtain s where
    rest: "accumulate_episode ar ms (setitem agg m s) = Inr agg'"
    by (auto simp: p split: sum.splits)
  from Cons.IH [OF wf_dict_setitem [OF Cons.prems(1)] rest] show ?case .
qed

lemma accumulate_episode_returns:
  "wf_dict ms \<Longrightarrow>
   (\<exists>agg'. accumulate_episode ar ms agg = Inr agg') =
     list_all (\<lambda>mv. \<exists>s. float_add ar (defaultdict_get ar agg (fst mv)) (snd mv) = Inr s) ms"
proof (induction ms arbitrary: agg)
  case Nil
  then show ?case by simp
next
  case (Cons p ms)
  obtain m v where p: "p = (m, v)" by (cases p)
  from Cons.prems have wf: "wf_dict ms" and fresh: "m \<notin> fst ` set ms"
    by (auto simp: p wf_dict_def)
  have same: "defaultdict_get ar (setitem agg m s) (fst mv) = defaultdict_get ar agg (fst mv)"
    if "mv \<in> set ms" for mv s
  proof -
    from that fresh have "fst mv \<noteq> m" by auto
    then show ?thesis by (simp add: defaultdict_get_def map_of_setitem)
  qed
  show ?case
  proof (cases "float_add ar (defaultdict_get ar agg m) v")
    case (Inl e)
    then show ?thesis by (simp add: p)
  next
    case (Inr s)
    have "list_all (\<lambda>mv. \<exists>s'. float_add ar (defaultdict_get ar (setitem agg m s) (fst mv)) (snd mv) = Inr s') ms
        = list_all (\<lambda>mv. \<exists>s'. float_add ar (defaultdict_get ar agg (fst mv)) (snd mv) = Inr s') ms"
      using same by (simp add: list_all_iff)
    with Cons.IH [OF wf, of "setitem agg m s"] Inr show ?thesis
      by (simp add: p)
  qed
qed

lemma accumulate_all_wf:
  "wf_dict agg \<Longrightarrow> accumulate_all ar M agg = Inr agg' \<Longrightarrow> wf_dict agg'"
proof (induction M arbitrary: agg)
  case Nil
  then show ?case by simp
next
  case (Cons p M)
  obtain e ms where p: "p = (e, ms)" by (cases p)
  from Cons.prems(2) obtain agg1 where one: "accumulate_episode ar ms agg = Inr agg1"
    and rest: "accumulate_all ar M agg1 = Inr agg'"
    by (auto simp: p split: sum.splits)
  from Cons.IH [OF accumulate_episode_wf [OF Cons.prems(1) one] rest] show ?case .
qed

lemma values_of_Cons:
  "values_of ((e, ms) # M) k =
     (case map_of ms k of None \<Rightarrow> values_of M k | Some v \<Rightarrow> v # values_of M k)"
  by (simp add: values_of_def split: option.splits)

lemma values_of_empty_iff: "values_of M k = [] \<longleftrightarrow> k \<notin> metric_names_of M"
proof (induction M)
  case Nil
  then show ?case by (simp add: values_of_def metric_names_of_def)
next
  case (Cons p M)
  have "(map_of (snd p) k = None) = (k \<notin> fst ` set (snd p))"
    by (simp add: map_of_eq_None_iff)
  with Cons show ?case
    by (auto simp: values_of_def metric_names_of_def split: option.splits)
qed

text \<open>What the accumulated dictionary holds at a key: the running sum of its values.\<close>

lemma accumulate_all_lookup:
  "list_all (\<lambda>em. wf_dict (snd em)) M \<Longrightarrow> accumulate_all ar M agg = Inr agg' \<Longrightarrow>
   running_sum ar (defaultdict_get ar agg k) (values_of M k) = Inr (defaultdict_get ar agg' k) \<and>
   (map_of agg' k = None) = (map_of agg k = None \<and> values_of M k = [])"
proof (induction M arbitrary: agg)
  case Nil
  then show ?case by (simp add: values_of_def)
next
  case (Cons p M)
  obtain e ms where p: "p = (e, ms)" by (cases p)
  from Cons.prems(1) have wf: "wf_dict ms" and rest: "list_all (\<lambda>em. wf_dict (snd em)) M"
    by (simp_all add: p)
  from Cons.prems(2) obtain agg1 where one: "accumulate_episode ar ms agg = Inr agg1"
    and run: "accumulate_all ar M agg1 = Inr agg'"
    by (auto simp: p split: sum.splits)
  note IH = Cons.IH [OF rest run]
  note step = accumulate_episode_lookup [OF wf one, of k]
  show ?case
  proof (cases "map_of ms k")
    case None
    with step have "map_of agg1 k = map_of agg k" by simp
    then have "defaultdict_get ar agg1 k = defaultdict_get ar agg k"
      by (simp add: defaultdict_get_def)
    with IH None \<open>map_of agg1 k = map_of agg k\<close> show ?thesis
      by (simp add: p values_of_Cons)
  next
    case (Some v)
    with step obtain s where s: "float_add ar (defaultdict_get ar agg k) v = Inr s"
      and a1: "map_of agg1 k = Some s" by auto
    then have "defaultdict_get ar agg1 k = s" by (simp add: defaultdict_get_def)
    with IH Some s a1 show ?thesis
      by (simp add: p values_of_Cons)
  qed
qed

text \<open>The accumulation returns exactly when every running sum does.\<close>

lemma accumulate_all_returns:
  "list_all (\<lambda>em. wf_dict (snd em)) M \<Longrightarrow>
   (\<exists>agg'. accumulate_all ar M agg = Inr agg') =
     (\<forall>k. \<exists>s. running_sum ar (defaultdict_get ar agg k) (values_of M k) = Inr s)"
proof (induction M arbitrary: agg)
  case Nil
  then show ?case by (simp add: values_of_def)
next
  case (Cons p M)
  obtain e ms where p: "p = (e, ms)" by (cases p)
  from Cons.prems(1) have wf: "wf_dict ms" and rest: "list_all (\<lambda>em. wf_dict (snd em)) M"
    by (simp_all add: p)
  show ?case
  proof
    assume "\<exists>agg'. accumulate_all ar (p # M) agg = Inr agg'"
    then obtain agg' where "accumulate_all ar (p # M) agg = Inr agg'" ..
    from accumulate_all_lookup [OF Cons.prems(1) this]
    show "\<forall>k. \<exists>s. running_sum ar (defaultdict_get ar agg k) (values_of (p # M) k) = Inr s"
      by blast
  next
    assume all: "\<forall>k. \<exists>s. running_sum ar (defaultdict_get ar agg k) (values_of (p # M) k) = Inr s"
    have "\<exists>s. float_add ar (defaultdict_get ar agg (fst mv)) (snd mv) = Inr s"
      if "mv \<in> set ms" for mv
    proof -
      from that wf have "map_of ms (fst mv) = Some (snd mv)"
        by (simp add: wf_dict_def)
      with all [rule_format, of "fst mv"] show ?thesis
        by (auto simp: p values_of_Cons split: sum.splits)
    qed
    then have "\<exists>agg1. accumulate_episode ar ms agg = Inr agg1"
      by (simp add: accumulate_episode_returns [OF wf] list_all_iff)
    then obtain agg1 where one: "accumulate_episode ar ms agg = Inr agg1" ..
    have "\<exists>s. running_sum ar (defaultdict_get ar agg1 k) (values_of M k) = Inr s" for k
    proof (cases "map_of ms k")
      case None
      with accumulate_episode_lookup [OF wf one, of k]
      have "defaultdict_get ar agg1 k = defaultdict_get ar agg k"
        by (simp add: defaultdict_get_def)
      with all [rule_format, of k] None show ?thesis
        by (simp add: p values_of_Cons)
    next
      case (Some v)
      with accumulate_episode_lookup [OF wf one, of k] obtain s where
        s: "float_add ar (defaultdict_get ar agg k) v = Inr s" and "map_of agg1 k = Some s"
        by auto
      then have "defaultdict_get ar agg1 k = s" by (simp add: defaultdict_get_def)
      with all [rule_format, of k] Some s show ?thesis
        by (simp add: p values_of_Cons)
    qed
    with Cons.IH [OF rest, of agg1] one
    show "\<exists>agg'. accumulate_all ar (p # M) agg = Inr agg'"
      by (simp add: p)
  qed
qed

lemma avg_comprehension_append:
  "n \<noteq> 0 \<Longrightarrow> distinct (map fst (acc @ agg)) \<Longrightarrow>
   avg_comprehension ar n agg acc = Inr (acc @ map (\<lambda>(k, v). (k, float_div ar v n)) agg)"
proof (induction agg arbitrary: acc)
  case Nil
  then show ?case by simp
next
  case (Cons p agg)
  obtain k v where p: "p = (k, v)" by (cases p)
  from Cons.prems have fresh: "k \<notin> set (map fst acc)" by (auto simp: p)
  from Cons.prems have d: "distinct (map fst ((acc @ [(k, float_div ar v n)]) @ agg))"
    by (auto simp: p)
  show ?case
    using Cons.IH [OF Cons.prems(1) d] Cons.prems(1)
    by (simp add: p truediv_def setitem_fresh [OF fresh])
qed

lemma map_of_scaled:
  "map_of (map (\<lambda>(k, v). (k, f v)) xs) k = map_option f (map_of xs k)"
  by (induction xs) auto

lemma keys_scaled: "map fst (map (\<lambda>(k, v). (k, f v)) xs) = map fst xs"
  by (induction xs) auto

lemma compute_avg_metrics_returns:
  assumes "wf_metrics M"
  shows "(\<exists>avg. compute_avg_metrics ar M = Inr avg) =
           (\<forall>k. \<exists>s. running_sum ar (float_zero ar) (values_of M k) = Inr s)"
proof (cases "M = []")
  case True
  then show ?thesis by (simp add: compute_avg_metrics_def values_of_def)
next
  case False
  from assms have wfs: "list_all (\<lambda>em. wf_dict (snd em)) M"
    by (simp add: wf_metrics_def)
  have "(\<exists>avg. compute_avg_metrics ar M = Inr avg) = (\<exists>agg. accumulate_all ar M [] = Inr agg)"
  proof
    assume "\<exists>avg. compute_avg_metrics ar M = Inr avg"
    then show "\<exists>agg. accumulate_all ar M [] = Inr agg"
      by (cases "accumulate_all ar M []") (simp_all add: compute_avg_metrics_def)
  next
    assume "\<exists>agg. accumulate_all ar M [] = Inr agg"
    then obtain agg where agg: "accumulate_all ar M [] = Inr agg" ..
    from accumulate_all_wf [OF _ agg] have "distinct (map fst ([] @ agg))"
      by (simp add: wf_dict_def)
    from avg_comprehension_append [OF _ this, of "length M" ar] False agg
    show "\<exists>avg. compute_avg_metrics ar M = Inr avg"
      by (simp add: compute_avg_metrics_def)
  qed
  with accumulate_all_returns [OF wfs, of ar "[]"] show ?thesis
    by (simp add: defaultdict_get_def)
qed

lemma compute_avg_metrics_char:
  assumes "wf_metrics M" and "M \<noteq> []" and "compute_avg_metrics ar M = Inr avg"
  shows "wf_dict avg" and "set (map fst avg) = metric_names_of M"
    and "\<exists>s. running_sum ar (float_zero ar) (values_of M k) = Inr s \<and>
             map_of avg k =
               (if k \<in> metric_names_of M then Some (float_div ar s (length M)) else None)"
proof -
  from assms(1) have wfs: "list_all (\<lambda>em. wf_dict (snd em)) M"
    by (simp add: wf_metrics_def)
  from assms(3) obtain agg where agg: "accumulate_all ar M [] = Inr agg"
    by (cases "accumulate_all ar M []") (simp_all add: compute_avg_metrics_def)
  from accumulate_all_wf [OF _ agg] have wfa: "wf_dict agg" by (simp add: wf_dict_def)
  then have "distinct (map fst ([] @ agg))" by (simp add: wf_dict_def)
  from avg_comprehension_append [OF _ this, of "length M" ar] assms(2,3) agg
  have avg: "avg = map (\<lambda>(k, v). (k, float_div ar v (length M))) agg"
    by (simp add: compute_avg_metrics_def)
  have look: "running_sum ar (float_zero ar) (values_of M k) = Inr (defaultdict_get ar agg k)"
    and dom: "(map_of agg k = None) = (k \<notin> metric_names_of M)" for k
    using accumulate_all_lookup [OF wfs agg, of k]
    by (simp_all add: defaultdict_get_def values_of_empty_iff)
  show "wf_dict avg"
    using wfa unfolding avg wf_dict_def keys_scaled .
  have mem: "k \<in> set (map fst agg) \<longleftrightarrow> k \<in> metric_names_of M" for k
    using dom [of k] map_of_eq_None_iff [of agg k] by auto
  have "set (map fst avg) = set (map fst agg)"
    unfolding avg by (simp only: keys_scaled)
  with mem show "set (map fst avg) = metric_names_of M" by blast
  have "map_of avg k =
      (if k \<in> metric_names_of M
       then Some (float_div ar (defaultdict_get ar agg k) (length M)) else None)"
    using dom [of k] by (auto simp: avg map_of_scaled defaultdict_get_def)
  with look [of k]
  show "\<exists>s. running_sum ar (float_zero ar) (values_of M k) = Inr s \<and>
             map_of avg k =
               (if k \<in> metric_names_of M then Some (float_div ar s (length M)) else None)"
    by blast
qed

lemma length_values_of:
  "length (values_of M k) = length M \<longleftrightarrow> list_all (\<lambda>em. map_of (snd em) k \<noteq> None) M"
proof (induction M)
  case Nil
  then show ?case by (simp add: values_of_def)
next
  case (Cons p M)
  have le: "length (values_of M k) \<le> length M"
    by (simp add: values_of_def map_filter_def)
  show ?case
  proof (cases "map_of (snd p) k")
    case None
    with le show ?thesis by (simp add: values_of_def)
  next
    case (Some v)
    with Cons show ?thesis by (simp add: values_of_def)
  qed
qed

lemma accumulate_episode_error:
  "accumulate_episode ar ms agg = Inl e \<Longrightarrow> \<exists>a v. float_add ar a v = Inl e"
proof (induction ms arbitrary: agg)
  case Nil
  then show ?case by simp
next
  case (Cons p ms)
  obtain m v where p: "p = (m, v)" by (cases p)
  show ?case
  proof (cases "float_add ar (defaultdict_get ar agg m) v")
    case (Inl e')
    with Cons.prems show ?thesis by (auto simp: p)
  next
    case (Inr s)
    with Cons.prems have "accumulate_episode ar ms (setitem agg m s) = Inl e" by (simp add: p)
    from Cons.IH [OF this] show ?thesis .
  qed
qed

lemma accumulate_all_error:
  "accumulate_all ar M agg = Inl e \<Longrightarrow> \<exists>a v. float_add ar a v = Inl e"
proof (induction M arbitrary: agg)
  case Nil
  then show ?case by simp
next
  case (Cons p M)
  obtain ep ms where p: "p = (ep, ms)" by (cases p)
  show ?case
  proof (cases "accumulate_episode ar ms agg")
    case (Inl e')
    with Cons.prems accumulate_episode_error [of ar ms agg e] show ?thesis by (simp add: p)
  next
    case (Inr agg1)
    with Cons.prems have "accumulate_all ar M agg1 = Inl e" by (simp add: p)
    from Cons.IH [OF this] show ?thesis .
  qed
qed

lemma compute_avg_metrics_error:
  assumes "compute_avg_metrics ar M = Inl e"
  shows "\<exists>a v. float_add ar a v = Inl e"
proof (cases "accumulate_all ar M []")
  case (Inl e')
  with assms accumulate_all_error [of ar M "[]" e] show ?thesis
    by (simp add: compute_avg_metrics_def)
next
  case (Inr agg)
  show ?thesis
  proof (cases "M = []")
    case True
    with assms show ?thesis by (simp add: compute_avg_metrics_def)
  next
    case False
    from accumulate_all_wf [OF _ Inr] have "distinct (map fst ([] @ agg))"
      by (simp add: wf_dict_def)
    from avg_comprehension_append [OF _ this, of "length M" ar] False Inr assms
    show ?thesis by (simp add: compute_avg_metrics_def)
  qed
qed

text \<open>An int metric too large for a float: the addition raises and so does the call.\<close>

lemma compute_avg_metrics_overflow_example:
  "compute_avg_metrics int_arith [(''e1'', [(''a'', 2 ^ 1024)])] = Inl OverflowError"
  by (simp add: int_arith_def compute_avg_metrics_def defaultdict_get_def)

text \<open>
  Claim C1, as the specification states it: for a non-empty collection and a key \<open>k\<close>
  of at least one episode, the average at \<open>k\<close> is the arithmetic mean of \<open>M[e][k]\<close>
  over exactly the episodes that contain \<open>k\<close>. The code divides by the number of all
  episodes instead. In \<open>ragged_metrics\<close> only the first of two episodes has the metric
  \<open>a\<close>, with value 2: the mean over the episodes containing it is 2, the code returns 1.
\<close>

theorem compute_avg_metrics_not_mean_of_containing:
  "compute_avg_metrics exact_arith ragged_metrics = Inr [(''a'', 1)] \<and>
   mean_over_containing exact_arith ragged_metrics ''a'' = Inr 2 \<and>
   getitem [(''a'', 1)] ''a'' \<noteq> mean_over_containing exact_arith ragged_metrics ''a'' \<and>
   ''a'' \<in> metric_names_of ragged_metrics \<and> ragged_metrics \<noteq> [] \<and>
   wf_metrics ragged_metrics"
  by (simp add: ragged_metrics_def exact_arith_def compute_avg_metrics_def setitem_def
      defaultdict_get_def truediv_def mean_over_containing_def values_of_def
      metric_names_of_def wf_metrics_def wf_dict_def getitem_def)

text \<open>
  Claim C1, amended: for a non-empty well-formed collection \<open>M\<close> and a key \<open>k\<close> of at
  least one episode, when the call returns, \<open>compute_avg_metrics(M)[k]\<close> is the sum of
  \<open>M[e][k]\<close> over the episodes containing \<open>k\<close>, added up in floating point from \<open>0.0\<close>
  in the order of the episodes, divided by the number of all episodes of \<open>M\<close>. For a
  key that is in every episode this is the arithmetic mean over exactly the episodes
  containing \<open>k\<close>, formed in the same floating-point arithmetic. The statement holds for
  every arithmetic, so for that of the interpreter with its rounding.
\<close>

theorem compute_avg_metrics_mean_when_everywhere:
  assumes "wf_metrics M" and "M \<noteq> []" and "k \<in> metric_names_of M"
      and "compute_avg_metrics ar M = Inr avg"
  shows "\<exists>s. running_sum ar (float_zero ar) (values_of M k) = Inr s \<and>
           map_of avg k = Some (float_div ar s (length M)) \<and>
           (list_all (\<lambda>em. map_of (snd em) k \<noteq> None) M \<longrightarrow>
              mean_over_containing ar M k = Inr (float_div ar s (length M)))"
proof -
  from compute_avg_metrics_char(3) [OF assms(1,2,4), of k] assms(3) obtain s where
    s: "running_sum ar (float_zero ar) (values_of M k) = Inr s" and
    look: "map_of avg k = Some (float_div ar s (length M))"
    by auto
  have "mean_over_containing ar M k = Inr (float_div ar s (length M))"
    if "list_all (\<lambda>em. map_of (snd em) k \<noteq> None) M"
  proof -
    from that have "length (values_of M k) = length M" by (simp add: length_values_of)
    with s assms(2) show ?thesis
      by (simp add: mean_over_containing_def truediv_def)
  qed
  with s look show ?thesis by blast
qed

theorem compute_avg_metrics_mean_when_everywhere_witness:
  "wf_metrics example_metrics \<and> example_metrics \<noteq> [] \<and>
   ''a'' \<in> metric_names_of example_metrics \<and>
   compute_avg_metrics exact_arith example_metrics = Inr [(''a'', 3 / 2), (''b'', 7 / 2)] \<and>
   list_all (\<lambda>em. map_of (snd em) ''a'' \<noteq> None) example_metrics \<and>
   mean_over_containing exact_arith example_metrics ''a'' = Inr (3 / 2) \<and>
   (\<exists>s. running_sum exact_arith (float_zero exact_arith) (values_of example_metrics ''a'') = Inr s \<and>
      map_of [(''a'', 3 / 2), (''b'', 7 / 2)] ''a'' = Some (float_div exact_arith s (length example_metrics)) \<and>
      mean_over_containing exact_arith example_metrics ''a'' =
        Inr (float_div exact_arith s (length example_metrics)))"
proof -
  have wf: "wf_metrics example_metrics"
    by (simp add: example_metrics_def wf_metrics_def wf_dict_def)
  have ne: "example_metrics \<noteq> []"
    by (simp add: example_metrics_def)
  have k: "''a'' \<in> metric_names_of example_metrics"
    by (simp add: example_metrics_def metric_names_of_def)
  have run: "compute_avg_metrics exact_arith example_metrics = Inr [(''a'', 3 / 2), (''b'', 7 / 2)]"
    by (simp add: example_metrics_def exact_arith_def compute_avg_metrics_def setitem_def
        defaultdict_get_def truediv_def)
  have everywhere: "list_all (\<lambda>em. map_of (snd em) ''a'' \<noteq> None) example_metrics"
    by (simp add: example_metrics_def)
  have mean: "mean_over_containing exact_arith example_metrics ''a'' = Inr (3 / 2)"
    by (simp add: example_metrics_def exact_arith_def mean_over_containing_def values_of_def
        truediv_def)
  from compute_avg_metrics_mean_when_everywhere [OF wf ne k run] everywhere have
    "\<exists>s. running_sum exact_arith (float_zero exact_arith) (values_of example_metrics ''a'') = Inr s \<and>
      map_of [(''a'', 3 / 2), (''b'', 7 / 2)] ''a'' = Some (float_div exact_arith s (length example_metrics)) \<and>
      mean_over_containing exact_arith example_metrics ''a'' =
        Inr (float_div exact_arith s (length example_metrics))"
    by blast
  with wf ne k run everywhere mean show ?thesis by blast
qed

text \<open>
  Claim C2: for a non-empty collection the result is computed by summing, for each metric
  name, its values over the episodes in which it occurs, and dividing each sum by the
  number of all episodes; a name missing from an episode adds nothing and raises nothing;
  the result has one entry for each metric name of at least one episode. The sum is the
  floating-point sum the code forms, from \<open>0.0\<close> in the order of the episodes; the call
  returns exactly when every such sum can be formed, and an error it raises is one an
  addition raised.
\<close>

theorem compute_avg_metrics_sum_div_len:
  assumes "wf_metrics M" and "M \<noteq> []"
  shows "((\<exists>avg. compute_avg_metrics ar M = Inr avg) =
            (\<forall>k. \<exists>s. running_sum ar (float_zero ar) (values_of M k) = Inr s)) \<and>
         (\<forall>e. compute_avg_metrics ar M = Inl e \<longrightarrow> (\<exists>a v. float_add ar a v = Inl e)) \<and>
         (\<forall>avg. compute_avg_metrics ar M = Inr avg \<longrightarrow>
            wf_dict avg \<and> set (map fst avg) = metric_names_of M \<and>
            (\<forall>k. \<exists>s. running_sum ar (float_zero ar) (values_of M k) = Inr s \<and>
                   map_of avg k =
                     (if k \<in> metric_names_of M
                      then Some (float_div ar s (length M)) else None)))"
  using compute_avg_metrics_returns [OF assms(1), of ar] compute_avg_metrics_error [of ar M]
    compute_avg_metrics_char [OF assms]
  by blast

theorem compute_avg_metrics_sum_div_len_witness:
  "wf_metrics ragged_metrics \<and> ragged_metrics \<noteq> [] \<and>
   compute_avg_metrics exact_arith ragged_metrics = Inr [(''a'', 1)] \<and>
   metric_names_of ragged_metrics = {''a''} \<and>
   running_sum exact_arith (float_zero exact_arith) (values_of ragged_metrics ''a'') = Inr 2 \<and>
   float_div exact_arith 2 (length ragged_metrics) = 1 \<and>
   wf_dict [(''a'', 1::real)] \<and> set (map fst [(''a'', 1::real)]) = metric_names_of ragged_metrics"
proof -
  have wf: "wf_metrics ragged_metrics"
    by (simp add: ragged_metrics_def wf_metrics_def wf_dict_def)
  have ne: "ragged_metrics \<noteq> []"
    by (simp add: ragged_metrics_def)
  have run: "compute_avg_metrics exact_arith ragged_metrics = Inr [(''a'', 1)]"
    by (simp add: ragged_metrics_def exact_arith_def compute_avg_metrics_def setitem_def
        defaultdict_get_def truediv_def)
  have names: "metric_names_of ragged_metrics = {''a''}"
    by (simp add: ragged_metrics_def metric_names_of_def)
  have sum: "running_sum exact_arith (float_zero exact_arith) (values_of ragged_metrics ''a'') = Inr 2"
    by (simp add: ragged_metrics_def exact_arith_def values_of_def)
  have quot: "float_div exact_arith 2 (length ragged_metrics) = 1"
    by (simp add: ragged_metrics_def exact_arith_def)
  from compute_avg_metrics_sum_div_len [OF wf ne, of exact_arith] run have
    "wf_dict [(''a'', 1::real)] \<and> set (map fst [(''a'', 1::real)]) = metric_names_of ragged_metrics"
    by blast
  with wf ne run names sum quot show ?thesis by blast
qed

text \<open>
  Claim C6, as the specification states it: on the empty collection the averaging
  divides by zero and produces no result. The division stands inside the comprehension
  over the accumulated sums; with no episode there is no sum, the comprehension has
  nothing to divide, and the call returns.
\<close>

theorem compute_avg_metrics_empty_no_error:
  "compute_avg_metrics exact_arith [] \<noteq> Inl ZeroDivisionError"
  by (simp add: compute_avg_metrics_def)

text \<open>
  Claim C6, amended: applied to the empty collection, \<open>compute_avg_metrics\<close> performs no
  division and returns the empty mapping.
\<close>

theorem compute_avg_metrics_empty:
  "compute_avg_metrics ar [] = Inr [] \<and> accumulate_all ar [] [] = Inr [] \<and>
   avg_comprehension ar 0 [] [] = Inr []"
  by (simp add: compute_avg_metrics_def)

section \<open>Extracting metrics\<close>

lemma names_comprehension_ok:
  "\<not> list_ex (\<lambda>n. map_of em n = None) ns \<Longrightarrow>
   \<exists>r. names_comprehension em ns acc = Inr r \<and>
       (wf_dict acc \<longrightarrow> wf_dict r) \<and>
       set (map fst r) = set (map fst acc) \<union> set ns \<and>
       (\<forall>k. map_of r k = (if k \<in> set ns then map_of em k else map_of acc k))"
proof (induction ns arbitrary: acc)
  case Nil
  then show ?case by simp
next
  case (Cons n ns)
  from Cons.prems obtain v where v: "map_of em n = Some v"
    and rest: "\<not> list_ex (\<lambda>n. map_of em n = None) ns"
    by auto
  from Cons.IH [OF rest, of "setitem acc n v"] obtain r where
    r: "names_comprehension em ns (setitem acc n v) = Inr r" and
    wf: "wf_dict (setitem acc n v) \<longrightarrow> wf_dict r" and
    keys: "set (map fst r) = set (map fst (setitem acc n v)) \<union> set ns" and
    look: "\<forall>k. map_of r k = (if k \<in> set ns then map_of em k else map_of (setitem acc n v) k)"
    by blast
  have "names_comprehension em (n # ns) acc = Inr r"
    by (simp add: getitem_def v r)
  moreover have "wf_dict acc \<longrightarrow> wf_dict r"
    using wf by (simp add: wf_dict_setitem)
  moreover have "set (map fst r) = set (map fst acc) \<union> set (n # ns)"
    using keys by (simp only: keys_setitem) auto
  moreover have "\<forall>k. map_of r k = (if k \<in> set (n # ns) then map_of em k else map_of acc k)"
    using look v by (simp add: map_of_setitem)
  ultimately show ?case by blast
qed

lemma names_comprehension_fail:
  "list_ex (\<lambda>n. map_of em n = None) ns \<Longrightarrow>
   \<exists>n. names_comprehension em ns acc = Inl (KeyError n) \<and> n \<in> set ns \<and> map_of em n = None"
proof (induction ns arbitrary: acc)
  case Nil
  then show ?case by simp
next
  case (Cons n ns)
  show ?case
  proof (cases "map_of em n")
    case None
    then show ?thesis by (auto simp: getitem_def)
  next
    case (Some v)
    with Cons.prems have "list_ex (\<lambda>n. map_of em n = None) ns" by simp
    from Cons.IH [OF this, of "setitem acc n v"] Some show ?thesis
      by (auto simp: getitem_def)
  qed
qed

lemma names_comprehension_values:
  "names_comprehension em ns acc = Inr r \<Longrightarrow> (n, v) \<in> set r \<Longrightarrow>
   (n, v) \<in> set acc \<or> map_of em n = Some v"
proof (induction ns arbitrary: acc)
  case Nil
  then show ?case by simp
next
  case (Cons a ns)
  from Cons.prems(1) obtain w where w: "map_of em a = Some w"
    and r: "names_comprehension em ns (setitem acc a w) = Inr r"
    by (auto simp: getitem_def split: option.splits)
  from Cons.IH [OF r Cons.prems(2)] w set_setitem_subset [of acc a w] show ?case
    by auto
qed

lemma not_missing_Cons:
  "some_name_missing ((e, em) # M) names \<longleftrightarrow>
     list_ex (\<lambda>n. map_of em n = None) names \<or> some_name_missing M names"
  by (simp add: some_name_missing_def)

lemma extract_loop_ok:
  "\<not> some_name_missing M names \<Longrightarrow> wf_dict (new @ M) \<Longrightarrow>
   \<exists>R. extract_loop M names new = Inr (new @ R) \<and> list_all2 (narrowed names) M R"
proof (induction M arbitrary: new)
  case Nil
  then show ?case by simp
next
  case (Cons p M)
  obtain e em where p: "p = (e, em)" by (cases p)
  from Cons.prems(1) have here: "\<not> list_ex (\<lambda>n. map_of em n = None) names"
    and rest: "\<not> some_name_missing M names"
    by (simp_all add: p not_missing_Cons)
  from names_comprehension_ok [OF here, of "[]"] obtain d where
    d: "names_comprehension em names [] = Inr d" and wfd: "wf_dict d" and
    keys: "set (map fst d) = set names" and
    look: "\<forall>k. map_of d k = (if k \<in> set names then map_of em k else None)"
    by (auto simp: wf_dict_def)
  from Cons.prems(2) have fresh: "e \<notin> set (map fst new)"
    by (auto simp: p wf_dict_def)
  from Cons.prems(2) have wf': "wf_dict ((new @ [(e, d)]) @ M)"
    by (auto simp: p wf_dict_def)
  from Cons.IH [OF rest wf'] obtain R where
    R: "extract_loop M names (new @ [(e, d)]) = Inr ((new @ [(e, d)]) @ R)" and
    all: "list_all2 (narrowed names) M R"
    by blast
  have n: "narrowed names (e, em) (e, d)"
    using wfd keys look here by (auto simp: narrowed_def list_all_iff list_ex_iff)
  have "extract_loop (p # M) names new = Inr (new @ (e, d) # R)"
    by (simp add: p d setitem_fresh [OF fresh] R)
  moreover have "list_all2 (narrowed names) (p # M) ((e, d) # R)"
    using n all by (simp add: p)
  ultimately show ?case by blast
qed

lemma extract_loop_total:
  "\<not> some_name_missing M names \<Longrightarrow> \<exists>R. extract_loop M names new = Inr R"
proof (induction M arbitrary: new)
  case Nil
  then show ?case by simp
next
  case (Cons p M)
  obtain e em where p: "p = (e, em)" by (cases p)
  from Cons.prems(1) have here: "\<not> list_ex (\<lambda>n. map_of em n = None) names"
    and rest: "\<not> some_name_missing M names"
    by (simp_all add: p not_missing_Cons)
  from names_comprehension_ok [OF here, of "[]"] obtain d where
    d: "names_comprehension em names [] = Inr d" by blast
  from Cons.IH [OF rest, of "setitem new e d"] show ?case
    by (simp add: p d)
qed

lemma extract_loop_fail:
  "some_name_missing M names \<Longrightarrow>
   \<exists>n. extract_loop M names new = Inl (KeyError n) \<and> n \<in> set names \<and>
       list_ex (\<lambda>em. map_of (snd em) n = None) M"
proof (induction M arbitrary: new)
  case Nil
  then show ?case by (simp add: some_name_missing_def)
next
  case (Cons p M)
  obtain e em where p: "p = (e, em)" by (cases p)
  show ?case
  proof (cases "list_ex (\<lambda>n. map_of em n = None) names")
    case True
    from names_comprehension_fail [OF True, of "[]"] show ?thesis
      by (auto simp: p)
  next
    case False
    from names_comprehension_ok [OF False, of "[]"] obtain d where
      d: "names_comprehension em names [] = Inr d" by blast
    from False Cons.prems have "some_name_missing M names"
      by (simp add: p not_missing_Cons)
    from Cons.IH [OF this, of "setitem new e d"] show ?thesis
      by (auto simp: p d)
  qed
qed

lemma extract_loop_values:
  "extract_loop M names new = Inr R \<Longrightarrow> (e, d) \<in> set R \<Longrightarrow> (n, v) \<in> set d \<Longrightarrow>
   (e, d) \<in> set new \<or> (\<exists>em. (e, em) \<in> set M \<and> map_of em n = Some v)"
proof (induction M arbitrary: new)
  case Nil
  then show ?case by simp
next
  case (Cons p M)
  obtain e' em' where p: "p = (e', em')" by (cases p)
  from Cons.prems(1) obtain d' where
    d': "names_comprehension em' names [] = Inr d'" and
    R: "extract_loop M names (setitem new e' d') = Inr R"
    by (auto simp: p split: sum.splits)
  from Cons.IH [OF R Cons.prems(2,3)] have
    "(e, d) \<in> set (setitem new e' d') \<or> (\<exists>em. (e, em) \<in> set M \<and> map_of em n = Some v)" .
  then show ?case
  proof
    assume "(e, d) \<in> set (setitem new e' d')"
    with set_setitem_subset [of new e' d'] have "(e, d) = (e', d') \<or> (e, d) \<in> set new" by auto
    then show ?thesis
    proof
      assume "(e, d) = (e', d')"
      with names_comprehension_values [OF d', of n v] Cons.prems(3) show ?thesis
        by (auto simp: p)
    next
      assume "(e, d) \<in> set new"
      then show ?thesis by simp
    qed
  next
    assume "\<exists>em. (e, em) \<in> set M \<and> map_of em n = Some v"
    then show ?thesis by auto
  qed
qed

text \<open>
  Claim C4, as stated: for every collection \<open>M\<close> and every list of names the call
  returns a collection with the episodes of \<open>M\<close> narrowed to the names. When an episode
  lacks a requested name the call returns nothing: it raises \<open>KeyError\<close>.
\<close>

theorem extract_metrics_raises_on_missing:
  "extract_metrics [(''e1'', ([] :: real dict))] [''a''] = Inl (KeyError ''a'') \<and>
   wf_dict [(''e1'', ([] :: real dict))]"
  by (simp add: extract_metrics_def getitem_def wf_dict_def)

text \<open>
  Claim C4, amended: for every collection \<open>M\<close> and every list of names such that no
  episode of \<open>M\<close> lacks a requested name, \<open>extract_metrics(M, names)\<close> returns a
  collection with the episode identifiers of \<open>M\<close> in the same order, where each episode
  holds exactly the requested names, each with the value it has in \<open>M\<close>.
\<close>

theorem extract_metrics_narrows:
  assumes "wf_dict M" and "\<not> some_name_missing M names"
  shows "\<exists>R. extract_metrics M names = Inr R \<and> map fst R = map fst M \<and>
           list_all2 (narrowed names) M R"
proof -
  from extract_loop_ok [OF assms(2), of "[]"] assms(1) obtain R where
    R: "extract_metrics M names = Inr R" and all: "list_all2 (narrowed names) M R"
    by (auto simp: extract_metrics_def)
  from all have "map fst R = map fst M"
    by (induction M R rule: list_all2_induct) (simp_all add: narrowed_def)
  with R all show ?thesis by blast
qed

theorem extract_metrics_narrows_witness:
  "wf_dict example_metrics \<and> \<not> some_name_missing example_metrics [''b''] \<and>
   extract_metrics example_metrics [''b''] = Inr [(''e1'', [(''b'', 3)]), (''e2'', [(''b'', 4)])] \<and>
   (\<exists>R. extract_metrics example_metrics [''b''] = Inr R \<and>
      map fst R = map fst example_metrics \<and> list_all2 (narrowed [''b'']) example_metrics R)"
proof -
  have wf: "wf_dict example_metrics"
    by (simp add: example_metrics_def wf_dict_def)
  have present: "\<not> some_name_missing example_metrics [''b'']"
    by (simp add: example_metrics_def some_name_missing_def)
  have run: "extract_metrics example_metrics [''b''] =
      Inr [(''e1'', [(''b'', 3)]), (''e2'', [(''b'', 4)])]"
    by (simp add: example_metrics_def extract_metrics_def getitem_def setitem_def)
  from wf present run extract_metrics_narrows [OF wf present] show ?thesis
    by simp
qed

text \<open>
  Claim C5: \<open>extract_metrics(M, names)\<close> fails if and only if some episode of \<open>M\<close>
  lacks one of the requested names, and the failure is the \<open>KeyError\<close> of such a name;
  no lookup falls back to a default: every value of a returned collection is a value of
  \<open>M\<close> for the same episode identifier and name.
\<close>

theorem extract_metrics_fails_iff_missing:
  "((\<exists>e. extract_metrics M names = Inl e) = some_name_missing M names) \<and>
   ((\<exists>n. extract_metrics M names = Inl (KeyError n) \<and> n \<in> set names \<and>
         list_ex (\<lambda>em. map_of (snd em) n = None) M) = some_name_missing M names) \<and>
   (case extract_metrics M names of
      Inl e \<Rightarrow> True
    | Inr R \<Rightarrow> list_all (\<lambda>ed. list_all (\<lambda>nv.
          list_ex (\<lambda>em. fst em = fst ed \<and> map_of (snd em) (fst nv) = Some (snd nv)) M) (snd ed)) R)"
proof (cases "some_name_missing M names")
  case True
  from extract_loop_fail [OF True, of "[]"] True show ?thesis
    by (auto simp: extract_metrics_def)
next
  case False
  from extract_loop_total [OF False, of "[]"] obtain R where R: "extract_loop M names [] = Inr R"
    by blast
  have "list_ex (\<lambda>em. fst em = e \<and> map_of (snd em) n = Some v) M"
    if "(e, d) \<in> set R" "(n, v) \<in> set d" for e d n v
    using extract_loop_values [OF R that] by (force simp: list_ex_iff)
  then have "list_all (\<lambda>ed. list_all (\<lambda>nv.
          list_ex (\<lambda>em. fst em = fst ed \<and> map_of (snd em) (fst nv) = Some (snd nv)) M) (snd ed)) R"
    by (auto simp: list_all_iff)
  with R False show ?thesis
    by (simp add: extract_metrics_def)
qed

section \<open>The abstract operations on the base class\<close>

text \<open>
  Claim C9: on the base class \<open>generate_video\<close>, \<open>generate_map\<close> and
  \<open>evaluate_and_get_maps\<close> raise \<open>NotImplementedError\<close> for every input; none
  returns a value.
\<close>

theorem abstract_operations_not_implemented:
  "generate_video self episode_id scene_id agent_seed args kwargs = Inl NotImplementedError \<and>
   generate_map self episode_id scene_id agent_seed map_height args kwargs =
     Inl NotImplementedError \<and>
   evaluate_and_get_maps self episode_id_last scene_id_last log_dir map_height args kwargs =
     Inl NotImplementedError \<and>
   (\<nexists>u. generate_video self episode_id scene_id agent_seed args kwargs = Inr u) \<and>
   (\<nexists>m. generate_map self episode_id scene_id agent_seed map_height args kwargs = Inr m) \<and>
   (\<nexists>r. evaluate_and_get_maps self episode_id_last scene_id_last log_dir map_height args kwargs
          = Inr r)"
  by (simp add: generate_video_def generate_map_def evaluate_and_get_maps_def)

end
